theory Spec2Isabelle
  imports Complex_Main "HOL-Library.AList"
begin

section \<open>Data model (models/earthquake.model.ts)\<close>

text \<open>
  Only the fields that the service reads are kept. A JavaScript \<open>number\<close> that holds a
  measurement is a \<open>real\<close> (no rounding, no NaN); a \<open>number\<close> that holds epoch
  milliseconds or a byte count is an \<open>int\<close>. An optional or nullable field is an
  \<open>option\<close>.
\<close>

record EarthquakeProperties =
  mag :: real
  place :: string
  time :: int

record EarthquakeFeature =
  properties :: EarthquakeProperties
  feature_id :: string

record EarthquakeResponse =
  features :: "EarthquakeFeature list"

record EarthquakeFilters =
  startTime :: string
  endTime :: string
  minMagnitude :: real
  maxMagnitude :: "real option"
  minLatitude :: "real option"
  maxLatitude :: "real option"
  minLongitude :: "real option"
  maxLongitude :: "real option"
  limit :: int
  offset :: int

text \<open>
  The two series of a summary are arrays of \<open>{date, count}\<close> and \<open>{range, count}\<close>
  objects; both are lists of pairs here, label first.
\<close>

record EarthquakeSummary =
  count :: nat
  averageMagnitude :: real
  strongestEarthquake :: "EarthquakeFeature option"
  frequencyPerDay :: "(string \<times> nat) list"
  magnitudeDistribution :: "(string \<times> nat) list"


section \<open>Library functions the service calls\<close>

text \<open>
  The service imports \<open>parseISO\<close>, \<open>differenceInDays\<close>, \<open>addDays\<close> and \<open>format\<close>
  from date-fns and builds dates with \<open>new Date(ms)\<close>. Their code is not part of the
  repository, so they are parameters of the model, collected in one record over an
  arbitrary type of dates. \<open>differenceInDays\<close> yields \<open>None\<close> where the library yields
  NaN (an invalid date); \<open>format_ymd\<close> is \<open>format(_, "yyyy-MM-dd")\<close>. The library's
  \<open>format\<close> throws on an invalid date; the times of the records and the days the
  seeding loop reaches are taken to be valid dates, so \<open>format_ymd\<close> always yields a
  string.
\<close>

record 'dt datefns =
  parseISO :: "string \<Rightarrow> 'dt"
  differenceInDays :: "'dt \<Rightarrow> 'dt \<Rightarrow> int option"
  addDays :: "'dt \<Rightarrow> int \<Rightarrow> 'dt"
  format_ymd :: "'dt \<Rightarrow> string"
  newDate :: "int \<Rightarrow> 'dt"

text \<open>
  A JavaScript \<open>Map\<close> keeps its keys in insertion order: \<open>set\<close> on a key that is present
  replaces the value in place, \<open>set\<close> on a new key appends, \<open>delete\<close> removes the key.
  That is an association list with \<open>AList.update\<close>, \<open>AList.delete\<close> and \<open>map_of\<close>.
\<close>

text \<open>\<open>Array.prototype.reduce\<close> without an initial value: the first element starts the fold.\<close>

fun reduce1 :: "('a \<Rightarrow> 'a \<Rightarrow> 'a) \<Rightarrow> 'a list \<Rightarrow> 'a option" where
  "reduce1 f [] = None"
| "reduce1 f (x # xs) = Some (foldl f x xs)"


section \<open>generateSummary (services/earthquake.service.ts)\<close>

definition totalMagnitude :: "EarthquakeFeature list \<Rightarrow> real" where
  "totalMagnitude earthquakes = foldl (\<lambda>sum eq. sum + mag (properties eq)) 0 earthquakes"

definition stronger :: "EarthquakeFeature \<Rightarrow> EarthquakeFeature \<Rightarrow> EarthquakeFeature" where
  "stronger strongest current =
     (if mag (properties strongest) > mag (properties current) then strongest else current)"

definition sampleInterval :: "int \<Rightarrow> int" where
  "sampleInterval daysDiff =
     (if daysDiff > 90 then \<lceil>real_of_int daysDiff / 90\<rceil> else 1)"

text \<open>The seeding loop \<open>for (let i = 0; i <= daysDiff; i += sampleInterval)\<close>.\<close>

function seedDates ::
  "'dt datefns \<Rightarrow> 'dt \<Rightarrow> int \<Rightarrow> int \<Rightarrow> (string \<times> nat) list \<Rightarrow> (string \<times> nat) list" where
  "seedDates D startDate daysDiff i dateMap =
     (if i \<le> daysDiff
      then seedDates D startDate daysDiff (i + sampleInterval daysDiff)
             (AList.update (format_ymd D (addDays D startDate i)) 0 dateMap)
      else dateMap)"
  by pat_completeness auto
termination
proof (relation "measure (\<lambda>(D, startDate, daysDiff, i, dateMap). nat (daysDiff + 1 - i))")
  show "wf (measure (\<lambda>(D :: 'dt datefns, startDate :: 'dt, daysDiff, i, dateMap :: (string \<times> nat) list).
              nat (daysDiff + 1 - i)))"
    by simp
next
  fix D :: "'dt datefns" and startDate :: 'dt and daysDiff i :: int
    and dateMap :: "(string \<times> nat) list"
  assume "i \<le> daysDiff"
  moreover have "0 < sampleInterval daysDiff"
    unfolding sampleInterval_def by (auto simp: less_ceiling_iff)
  ultimately show "((D, startDate, daysDiff, i + sampleInterval daysDiff,
            AList.update (format_ymd D (addDays D startDate i)) 0 dateMap),
           (D, startDate, daysDiff, i, dateMap))
          \<in> measure (\<lambda>(D, startDate, daysDiff, i, dateMap). nat (daysDiff + 1 - i))"
    by simp
qed

declare seedDates.simps [simp del]

text \<open>The part of \<open>generateSummary\<close> that fills \<open>dateMap\<close> before any record is counted.\<close>

definition seededDates :: "'dt datefns \<Rightarrow> EarthquakeFilters \<Rightarrow> (string \<times> nat) list" where
  "seededDates D filters =
     (let startDate = parseISO D (startTime filters);
          endDate = parseISO D (endTime filters)
      in case differenceInDays D endDate startDate of
           None \<Rightarrow> []
         | Some daysDiff \<Rightarrow> seedDates D startDate daysDiff 0 [])"

text \<open>\<open>format(new Date(eq.properties.time), "yyyy-MM-dd")\<close>, the day key of a record.\<close>

definition dayKey :: "'dt datefns \<Rightarrow> EarthquakeFeature \<Rightarrow> string" where
  "dayKey D eq = format_ymd D (newDate D (time (properties eq)))"

text \<open>\<open>dateMap.get(date) || 0\<close>: a missing key and a zero count both read as zero.\<close>

definition getOrZero :: "(string \<times> nat) list \<Rightarrow> string \<Rightarrow> nat" where
  "getOrZero dateMap date = (case map_of dateMap date of None \<Rightarrow> 0 | Some c \<Rightarrow> c)"

text \<open>The body of the \<open>forEach\<close>: \<open>dateMap.set(date, (dateMap.get(date) || 0) + 1)\<close>.\<close>

definition countDay ::
  "'dt datefns \<Rightarrow> (string \<times> nat) list \<Rightarrow> EarthquakeFeature \<Rightarrow> (string \<times> nat) list" where
  "countDay D dateMap eq =
     (let date = dayKey D eq
      in AList.update date (getOrZero dateMap date + 1) dateMap)"

definition frequencyPerDayOf ::
  "'dt datefns \<Rightarrow> EarthquakeFeature list \<Rightarrow> EarthquakeFilters \<Rightarrow> (string \<times> nat) list" where
  "frequencyPerDayOf D earthquakes filters = foldl (countDay D) (seededDates D filters) earthquakes"

text \<open>The five ranges, as \<open>(min, max, label)\<close>.\<close>

definition magnitudeRanges :: "(real \<times> real \<times> string) list" where
  "magnitudeRanges =
     [(0, 2, ''0-2''), (2, 4, ''2-4''), (4, 6, ''4-6''), (6, 8, ''6-8''), (8, 10, ''8+'')]"

definition inRange :: "real \<times> real \<times> string \<Rightarrow> EarthquakeFeature \<Rightarrow> bool" where
  "inRange r eq =
     (case r of (rmin, rmax, label) \<Rightarrow>
        mag (properties eq) \<ge> rmin \<and> (rmax = 10 \<or> mag (properties eq) < rmax))"

definition magnitudeDistributionOf :: "EarthquakeFeature list \<Rightarrow> (string \<times> nat) list" where
  "magnitudeDistributionOf earthquakes =
     map (\<lambda>r. (snd (snd r), length (filter (inRange r) earthquakes))) magnitudeRanges"

text \<open>
  \<open>generateSummary\<close> hands its result to \<open>summarySubject.next\<close>; the function below is
  the value it hands over.
\<close>

definition generateSummary ::
  "'dt datefns \<Rightarrow> EarthquakeFeature list \<Rightarrow> EarthquakeFilters \<Rightarrow> EarthquakeSummary" where
  "generateSummary D earthquakes filters =
     (if length earthquakes = 0
      then \<lparr>count = 0, averageMagnitude = 0, strongestEarthquake = None,
            frequencyPerDay = [], magnitudeDistribution = []\<rparr>
      else \<lparr>count = length earthquakes,
            averageMagnitude = totalMagnitude earthquakes / real (length earthquakes),
            strongestEarthquake = reduce1 stronger earthquakes,
            frequencyPerDay = frequencyPerDayOf D earthquakes filters,
            magnitudeDistribution = magnitudeDistributionOf earthquakes\<rparr>)"


text \<open>Counting helpers used to state what the histogram holds.\<close>

definition magnitudesIn :: "real \<Rightarrow> real \<Rightarrow> EarthquakeFeature list \<Rightarrow> nat" where
  "magnitudesIn lo hi earthquakes =
     length (filter (\<lambda>eq. lo \<le> mag (properties eq) \<and> mag (properties eq) < hi) earthquakes)"

definition magnitudesFrom :: "real \<Rightarrow> EarthquakeFeature list \<Rightarrow> nat" where
  "magnitudesFrom lo earthquakes =
     length (filter (\<lambda>eq. lo \<le> mag (properties eq)) earthquakes)"


section \<open>The response cache (services/earthquake.service.ts)\<close>

record CacheEntry =
  data :: EarthquakeResponse
  timestamp :: int
  size_bytes :: int

text \<open>
  The two cache fields of the service object. The operations below are written over the
  record scheme, so they also run on the full service state that extends it.
\<close>

record ServiceCache =
  cache :: "(string \<times> CacheEntry) list"
  currentCacheSize :: int

definition CACHE_DURATION :: int where
  "CACHE_DURATION = 30 * 60 * 1000"

definition MAX_CACHE_SIZE :: int where
  "MAX_CACHE_SIZE = 50 * 1024 * 1024"

definition emptyCache :: ServiceCache where
  "emptyCache = \<lparr>cache = [], currentCacheSize = 0\<rparr>"

text \<open>\<open>this.currentCacheSize -= entry.size; this.cache.delete(key)\<close>.\<close>

definition dropEntry :: "string \<Rightarrow> CacheEntry \<Rightarrow> 'a ServiceCache_scheme \<Rightarrow> 'a ServiceCache_scheme" where
  "dropEntry key entry s =
     s\<lparr>currentCacheSize := currentCacheSize s - size_bytes entry,
       cache := AList.delete key (cache s)\<rparr>"

text \<open>
  First loop of \<open>cleanupCache\<close>, over \<open>this.cache.entries()\<close>. Deleting the entry being
  visited does not disturb the iteration of a \<open>Map\<close>, so the loop runs over the entries
  as they were when it started.
\<close>

fun removeExpired ::
  "int \<Rightarrow> (string \<times> CacheEntry) list \<Rightarrow> 'a ServiceCache_scheme \<Rightarrow> 'a ServiceCache_scheme" where
  "removeExpired now [] s = s"
| "removeExpired now ((key, entry) # rest) s =
     removeExpired now rest
       (if now - timestamp entry > CACHE_DURATION then dropEntry key entry s else s)"

text \<open>
  Second loop of \<open>cleanupCache\<close>, over the entries sorted by timestamp: drop the entry,
  then stop once the tracked size is at most \<open>MAX_CACHE_SIZE * 0.8\<close>.
\<close>

fun evictOldest ::
  "(string \<times> CacheEntry) list \<Rightarrow> 'a ServiceCache_scheme \<Rightarrow> 'a ServiceCache_scheme" where
  "evictOldest [] s = s"
| "evictOldest ((key, entry) # rest) s =
     (let s' = dropEntry key entry s
      in if real_of_int (currentCacheSize s') \<le> real_of_int MAX_CACHE_SIZE * 0.8
         then s' else evictOldest rest s')"

text \<open>
  \<open>Array.prototype.sort\<close> with the comparator \<open>a[1].timestamp - b[1].timestamp\<close> is a
  stable sort on the timestamp, as \<open>sort_key\<close> is.
\<close>

definition cleanupCache :: "int \<Rightarrow> 'a ServiceCache_scheme \<Rightarrow> 'a ServiceCache_scheme" where
  "cleanupCache now s =
     (let s1 = removeExpired now (cache s) s
      in if currentCacheSize s1 > MAX_CACHE_SIZE
         then evictOldest (sort_key (\<lambda>e. timestamp (snd e)) (cache s1)) s1
         else s1)"

text \<open>
  \<open>getFromCache\<close> returns the payload, or \<open>None\<close> for \<open>null\<close>, together with the state
  it leaves. \<open>now\<close> is the reading of \<open>Date.now()\<close>.
\<close>

definition getFromCache ::
  "string \<Rightarrow> int \<Rightarrow> 'a ServiceCache_scheme \<Rightarrow> EarthquakeResponse option \<times> 'a ServiceCache_scheme" where
  "getFromCache key now s =
     (case map_of (cache s) key of
        None \<Rightarrow> (None, s)
      | Some cached \<Rightarrow>
          if now - timestamp cached > CACHE_DURATION
          then (None, dropEntry key cached s)
          else (Some (data cached), s))"

text \<open>
  \<open>estimateObjectSize\<close>: twice the length of \<open>JSON.stringify(obj)\<close>. The serialiser is
  the JavaScript runtime's and is a parameter.
\<close>

definition estimateObjectSize :: "('o \<Rightarrow> string) \<Rightarrow> 'o \<Rightarrow> int" where
  "estimateObjectSize stringify obj = int (length (stringify obj)) * 2"

text \<open>\<open>this.cache.set(key, {data, timestamp: Date.now(), size}); this.currentCacheSize += size\<close>.\<close>

definition storeEntry ::
  "string \<Rightarrow> EarthquakeResponse \<Rightarrow> int \<Rightarrow> int \<Rightarrow> 'a ServiceCache_scheme \<Rightarrow> 'a ServiceCache_scheme" where
  "storeEntry key dat now sz s =
     s\<lparr>cache := AList.update key \<lparr>data = dat, timestamp = now, size_bytes = sz\<rparr> (cache s),
       currentCacheSize := currentCacheSize s + sz\<rparr>"

text \<open>
  \<open>addToCache\<close> reads the clock twice: inside \<open>cleanupCache\<close> (\<open>nowCleanup\<close>) and for
  the new entry's timestamp (\<open>now\<close>).
\<close>

definition addToCache ::
  "(EarthquakeResponse \<Rightarrow> string) \<Rightarrow> string \<Rightarrow> EarthquakeResponse \<Rightarrow> int \<Rightarrow> int \<Rightarrow>
     'a ServiceCache_scheme \<Rightarrow> 'a ServiceCache_scheme" where
  "addToCache stringify key dat nowCleanup now s =
     (let sz = estimateObjectSize stringify dat
      in if currentCacheSize s + sz > MAX_CACHE_SIZE
         then (let s1 = cleanupCache nowCleanup s
               in if currentCacheSize s1 + sz > MAX_CACHE_SIZE
                  then s1
                  else storeEntry key dat now sz s1)
         else storeEntry key dat now sz s)"

text \<open>Sequences of cache operations, for statements about every reachable cache.\<close>

datatype cache_op =
    Add string EarthquakeResponse int int
  | Get string int
  | Cleanup int

fun applyOp :: "(EarthquakeResponse \<Rightarrow> string) \<Rightarrow> ServiceCache \<Rightarrow> cache_op \<Rightarrow> ServiceCache" where
  "applyOp stringify s (Add key dat nowCleanup now) = addToCache stringify key dat nowCleanup now s"
| "applyOp stringify s (Get key now) = snd (getFromCache key now s)"
| "applyOp stringify s (Cleanup now) = cleanupCache now s"

text \<open>Every \<open>Add\<close> of the sequence meets a cache that does not hold its key.\<close>

fun freshAdds :: "(EarthquakeResponse \<Rightarrow> string) \<Rightarrow> ServiceCache \<Rightarrow> cache_op list \<Rightarrow> bool" where
  "freshAdds stringify s [] = True"
| "freshAdds stringify s (op # ops) =
     ((case op of Add key dat nowCleanup now \<Rightarrow> key \<notin> fst ` set (cache s) | _ \<Rightarrow> True)
      \<and> freshAdds stringify (applyOp stringify s op) ops)"

definition entrySizes :: "(string \<times> CacheEntry) list \<Rightarrow> int" where
  "entrySizes entries = sum_list (map (\<lambda>e. size_bytes (snd e)) entries)"


text \<open>The invariant of the cache that the size bookkeeping rests on.\<close>

definition cacheInv :: "'a ServiceCache_scheme \<Rightarrow> bool" where
  "cacheInv s =
     (distinct (map fst (cache s)) \<and> (\<forall>e \<in> set (cache s). 0 \<le> size_bytes (snd e))
      \<and> currentCacheSize s = entrySizes (cache s))"

definition boundedInv :: "ServiceCache \<Rightarrow> bool" where
  "boundedInv s = (cacheInv s \<and> currentCacheSize s \<le> MAX_CACHE_SIZE)"


section \<open>buildRequestParams (services/earthquake.service.ts)\<close>

text \<open>
  \<open>HttpParams.set\<close> returns the parameters with the name bound to the value, replacing an
  earlier binding. \<open>Number.prototype.toString\<close> is the runtime's and is a parameter.
  A number in a condition is true unless it is zero; \<open>null\<close> and \<open>undefined\<close> are false.
  Every \<open>the\<close> below stands under the test that its field is true, hence present.
\<close>

definition truthy :: "real option \<Rightarrow> bool" where
  "truthy v = (case v of None \<Rightarrow> False | Some x \<Rightarrow> x \<noteq> 0)"

definition setParam :: "string \<Rightarrow> string \<Rightarrow> (string \<times> string) list \<Rightarrow> (string \<times> string) list" where
  "setParam name v params = AList.update name v params"

definition buildRequestParams ::
  "(real \<Rightarrow> string) \<Rightarrow> EarthquakeFilters \<Rightarrow> (string \<times> string) list" where
  "buildRequestParams toString filters =
     (let params0 =
            (setParam ''orderby'' ''time''
            (setParam ''offset'' (toString (of_int (max (offset filters) 1)))
            (setParam ''limit'' (toString (of_int (limit filters)))
            (setParam ''minmagnitude'' (toString (minMagnitude filters))
            (setParam ''endtime'' (endTime filters)
            (setParam ''starttime'' (startTime filters)
            (setParam ''format'' ''geojson'' [])))))));
          params1 =
            (if truthy (maxMagnitude filters)
             then setParam ''maxmagnitude'' (toString (the (maxMagnitude filters))) params0
             else params0)
      in if truthy (minLatitude filters) \<and> truthy (maxLatitude filters) \<and>
            truthy (minLongitude filters) \<and> truthy (maxLongitude filters)
         then (setParam ''maxlongitude'' (toString (the (maxLongitude filters)))
              (setParam ''minlongitude'' (toString (the (minLongitude filters)))
              (setParam ''maxlatitude'' (toString (the (maxLatitude filters)))
              (setParam ''minlatitude'' (toString (the (minLatitude filters))) params1))))
         else params1)"

definition boundingBoxNames :: "string list" where
  "boundingBoxNames = [''minlatitude'', ''maxlatitude'', ''minlongitude'', ''maxlongitude'']"

text \<open>What the filter form calls a complete box: none of the four fields is \<open>null\<close>.\<close>

definition hasBoundingBox :: "EarthquakeFilters \<Rightarrow> bool" where
  "hasBoundingBox filters =
     (minLatitude filters \<noteq> None \<and> maxLatitude filters \<noteq> None \<and>
      minLongitude filters \<noteq> None \<and> maxLongitude filters \<noteq> None)"


section \<open>The service as a state machine (services/earthquake.service.ts)\<close>

text \<open>
  What the service takes from outside its own code: the date library and the runtime's
  \<open>JSON.stringify\<close>, on responses (for the size estimate) and on filters (for the cache
  key).
\<close>

record 'dt runtime =
  datefns :: "'dt datefns"
  jsonOfResponse :: "EarthquakeResponse \<Rightarrow> string"
  jsonOfFilters :: "EarthquakeFilters \<Rightarrow> string"

text \<open>
  A pending \<open>setTimeout\<close> callback of the batch processing: the first one starts
  \<open>processBatchesSequentially\<close>, the later ones run \<open>processNextBatch\<close> with the value
  \<open>currentBatch\<close> has by then.
\<close>

datatype timer =
    StartBatches "EarthquakeFeature list" EarthquakeFilters
  | NextBatch "EarthquakeFeature list" EarthquakeFilters nat

text \<open>
  The state of the service object: the cache fields, the current value of each
  \<open>BehaviorSubject\<close>, whether the progress interval is running, and the subscription to
  the HTTP observable. The subscription holds what the \<open>subscribe\<close> callback has captured
  (\<open>cacheKey\<close> and \<open>filters\<close>) and a number that tells the requests apart; it is \<open>None\<close> once
  the observable has completed, failed or been cut by \<open>takeUntil(this.cancelSubject)\<close>.
  Toast notifications and console output are left out.
\<close>

record EarthquakeService = ServiceCache +
  loadingSubject :: bool
  earthquakesSubject :: "EarthquakeFeature list"
  summarySubject :: "EarthquakeSummary option"
  errorSubject :: "string option"
  progressSubject :: int
  progressSimulation :: bool
  httpSubscription :: "(nat \<times> string \<times> EarthquakeFilters) option"
  nextRequest :: nat
  timers :: "timer list"

definition initialService :: EarthquakeService where
  "initialService =
     \<lparr>cache = [], currentCacheSize = 0,
      loadingSubject = False, earthquakesSubject = [], summarySubject = None,
      errorSubject = None, progressSubject = 0, progressSimulation = False,
      httpSubscription = None, nextRequest = 0, timers = []\<rparr>"

definition BATCH_SIZE :: nat where
  "BATCH_SIZE = 500"

definition stopProgressSimulation :: "EarthquakeService \<Rightarrow> EarthquakeService" where
  "stopProgressSimulation s = s\<lparr>progressSimulation := False\<rparr>"

text \<open>The callback given to \<open>finalize\<close>, run when the HTTP observable ends for any reason.\<close>

definition finalizeRequest :: "EarthquakeService \<Rightarrow> EarthquakeService" where
  "finalizeRequest s =
     (stopProgressSimulation s)\<lparr>loadingSubject := False, progressSubject := 100\<rparr>"

text \<open>
  \<open>cancelCurrentRequest\<close>: \<open>cancelSubject.next()\<close> makes \<open>takeUntil\<close> complete the HTTP
  observable, if one is subscribed, without handing anything to the \<open>subscribe\<close> callback;
  \<open>finalize\<close> runs on that completion. The progress interval ends the same way.
\<close>

definition cancelCurrentRequest :: "EarthquakeService \<Rightarrow> EarthquakeService" where
  "cancelCurrentRequest s =
     (let s1 = (case httpSubscription s of
                  None \<Rightarrow> s
                | Some request \<Rightarrow> finalizeRequest (s\<lparr>httpSubscription := None\<rparr>))
      in (stopProgressSimulation s1)\<lparr>loadingSubject := False\<rparr>)"

definition processResponse ::
  "'dt runtime \<Rightarrow> EarthquakeResponse \<Rightarrow> EarthquakeFilters \<Rightarrow> EarthquakeService \<Rightarrow> EarthquakeService" where
  "processResponse R response filters s =
     (let earthquakes = features response
      in s\<lparr>earthquakesSubject := earthquakes,
           summarySubject := Some (generateSummary (datefns R) earthquakes filters)\<rparr>)"

definition processResponseInBatches ::
  "'dt runtime \<Rightarrow> EarthquakeResponse \<Rightarrow> EarthquakeFilters \<Rightarrow> EarthquakeService \<Rightarrow> EarthquakeService" where
  "processResponseInBatches R response filters s =
     (let earthquakes = features response
      in if length earthquakes < BATCH_SIZE
         then processResponse R response filters s
         else (let initialBatch = take 100 earthquakes;
                   s1 = processResponse R (response\<lparr>features := initialBatch\<rparr>) filters s
               in s1\<lparr>timers := timers s1 @ [StartBatches earthquakes filters]\<rparr>))"

text \<open>
  One call of \<open>processNextBatch\<close>; its \<open>setTimeout(processNextBatch, 10)\<close> becomes a
  pending timer. \<open>Math.ceil\<close> and \<open>Math.floor\<close> are taken over the reals.
\<close>

definition processNextBatch ::
  "'dt runtime \<Rightarrow> EarthquakeFeature list \<Rightarrow> EarthquakeFilters \<Rightarrow> nat \<Rightarrow> EarthquakeService \<Rightarrow> EarthquakeService" where
  "processNextBatch R earthquakes filters currentBatch s =
     (let totalBatches = nat \<lceil>real (length earthquakes) / real BATCH_SIZE\<rceil>
      in if currentBatch \<ge> totalBatches
         then s\<lparr>progressSubject := 100\<rparr>
         else (let start = currentBatch * BATCH_SIZE;
                   end = min (start + BATCH_SIZE) (length earthquakes);
                   s1 = s\<lparr>earthquakesSubject := take end earthquakes\<rparr>;
                   s2 = (if int currentBatch = int totalBatches - 1
                         then s1\<lparr>summarySubject :=
                                  Some (generateSummary (datefns R) earthquakes filters)\<rparr>
                         else s1);
                   s3 = s2\<lparr>progressSubject :=
                            95 + \<lfloor>real currentBatch / real totalBatches * 5\<rfloor>\<rparr>
               in s3\<lparr>timers := timers s3 @ [NextBatch earthquakes filters (currentBatch + 1)]\<rparr>))"

definition fetchEarthquakes ::
  "'dt runtime \<Rightarrow> EarthquakeFilters \<Rightarrow> int \<Rightarrow> EarthquakeService \<Rightarrow> EarthquakeService" where
  "fetchEarthquakes R filters now s =
     (let s1 = cancelCurrentRequest s;
          s2 = s1\<lparr>loadingSubject := True, errorSubject := None, progressSubject := 0\<rparr>;
          cacheKey = jsonOfFilters R filters
      in case getFromCache cacheKey now s2 of
           (Some cachedData, s3) \<Rightarrow>
             (processResponse R cachedData filters s3)
               \<lparr>progressSubject := 100, loadingSubject := False\<rparr>
         | (None, s3) \<Rightarrow>
             s3\<lparr>progressSimulation := True,
                httpSubscription := Some (nextRequest s3, cacheKey, filters),
                nextRequest := Suc (nextRequest s3)\<rparr>)"

text \<open>
  The HTTP call of request number \<open>request\<close> delivers a response. The \<open>subscribe\<close>
  callback runs only if that request's subscription is still in place; the observable
  then completes and \<open>finalize\<close> runs.
\<close>

definition httpResponse ::
  "'dt runtime \<Rightarrow> nat \<Rightarrow> EarthquakeResponse \<Rightarrow> int \<Rightarrow> int \<Rightarrow> EarthquakeService \<Rightarrow> EarthquakeService" where
  "httpResponse R request response nowCleanup now s =
     (case httpSubscription s of
        None \<Rightarrow> s
      | Some (issued, cacheKey, filters) \<Rightarrow>
          if issued \<noteq> request then s
          else (let s1 = (stopProgressSimulation s)\<lparr>progressSubject := 95\<rparr>;
                    s2 = addToCache (jsonOfResponse R) cacheKey response nowCleanup now s1;
                    s3 = processResponseInBatches R response filters s2
                in finalizeRequest (s3\<lparr>httpSubscription := None\<rparr>)))"

text \<open>
  The HTTP call fails or the \<open>timeout\<close> operator fires: the \<open>catchError\<close> callback, then
  \<open>finalize\<close>. The call of \<open>cancelCurrentRequest\<close> on a timeout meets an observable that
  has already ended.
\<close>

definition httpFailure :: "nat \<Rightarrow> bool \<Rightarrow> EarthquakeService \<Rightarrow> EarthquakeService" where
  "httpFailure request timedOut s =
     (case httpSubscription s of
        None \<Rightarrow> s
      | Some (issued, cacheKey, filters) \<Rightarrow>
          if issued \<noteq> request then s
          else (let s1 = (stopProgressSimulation (s\<lparr>httpSubscription := None\<rparr>))
                           \<lparr>progressSubject := 0,
                            errorSubject := Some ''Error fetching earthquake data. Please try again or refine your filters.''\<rparr>;
                    s2 = (if timedOut then cancelCurrentRequest s1 else s1)
                in finalizeRequest s2))"

text \<open>
  A tick of the progress interval publishes a value read off the progress curve; the
  value is left open here.
\<close>

definition progressTick :: "int \<Rightarrow> EarthquakeService \<Rightarrow> EarthquakeService" where
  "progressTick progress s = (if progressSimulation s then s\<lparr>progressSubject := progress\<rparr> else s)"

definition timerFired :: "'dt runtime \<Rightarrow> nat \<Rightarrow> EarthquakeService \<Rightarrow> EarthquakeService" where
  "timerFired R i s =
     (if i < length (timers s)
      then (let s1 = s\<lparr>timers := take i (timers s) @ drop (Suc i) (timers s)\<rparr>
            in case timers s ! i of
                 StartBatches earthquakes filters \<Rightarrow> processNextBatch R earthquakes filters 0 s1
               | NextBatch earthquakes filters currentBatch \<Rightarrow>
                   processNextBatch R earthquakes filters currentBatch s1)
      else s)"

text \<open>
  What can happen to the service, one event at a time on the single-threaded event loop:
  the two public operations, the outcome of an HTTP call, a tick of the progress interval,
  a pending timer firing, and the periodic cache sweep of \<open>setupCacheCleanup\<close>.
\<close>

datatype event =
    FetchEarthquakes EarthquakeFilters int
  | CancelCurrentRequest
  | HttpResponse nat EarthquakeResponse int int
  | HttpFailure nat bool
  | ProgressTick int
  | TimerFired nat
  | CacheSweep int

fun step :: "'dt runtime \<Rightarrow> EarthquakeService \<Rightarrow> event \<Rightarrow> EarthquakeService" where
  "step R s (FetchEarthquakes filters now) = fetchEarthquakes R filters now s"
| "step R s CancelCurrentRequest = cancelCurrentRequest s"
| "step R s (HttpResponse request response nowCleanup now) =
     httpResponse R request response nowCleanup now s"
| "step R s (HttpFailure request timedOut) = httpFailure request timedOut s"
| "step R s (ProgressTick progress) = progressTick progress s"
| "step R s (TimerFired i) = timerFired R i s"
| "step R s (CacheSweep now) = cleanupCache now s"

definition run :: "'dt runtime \<Rightarrow> EarthquakeService \<Rightarrow> event list \<Rightarrow> EarthquakeService" where
  "run R s events = foldl (step R) s events"

text \<open>No request numbered below \<open>n\<close> has its subscription in place, and none will be issued.\<close>

definition detachedBefore :: "nat \<Rightarrow> EarthquakeService \<Rightarrow> bool" where
  "detachedBefore n s =
     (n \<le> nextRequest s \<and>
      (case httpSubscription s of None \<Rightarrow> True | Some (issued, cacheKey, filters) \<Rightarrow> n \<le> issued))"


section \<open>Concrete inputs for the examples\<close>

text \<open>
  An instance of the date library for the examples: UTC, a date is a number of whole days
  since 1970-01-01, \<open>None\<close> is an invalid date. The conversion between day numbers and
  calendar dates is the usual one for the proleptic Gregorian calendar.
\<close>

definition daysFromCivil :: "int \<Rightarrow> int \<Rightarrow> int \<Rightarrow> int" where
  "daysFromCivil y0 m d =
     (let y = (if m \<le> 2 then y0 - 1 else y0);
          era = y div 400;
          yoe = y mod 400;
          doy = (153 * (if m > 2 then m - 3 else m + 9) + 2) div 5 + d - 1;
          doe = yoe * 365 + yoe div 4 - yoe div 100 + doy
      in era * 146097 + doe - 719468)"

definition civilFromDays :: "int \<Rightarrow> int \<times> int \<times> int" where
  "civilFromDays z0 =
     (let z = z0 + 719468;
          era = z div 146097;
          doe = z mod 146097;
          yoe = (doe - doe div 1460 + doe div 36524 - doe div 146096) div 365;
          doy = doe - (365 * yoe + yoe div 4 - yoe div 100);
          mp = (5 * doy + 2) div 153;
          d = doy - (153 * mp + 2) div 5 + 1;
          m = (if mp < 10 then mp + 3 else mp - 9)
      in (yoe + era * 400 + (if m \<le> 2 then 1 else 0), m, d))"

definition digitChar :: "int \<Rightarrow> char" where
  "digitChar n = ''0123456789'' ! nat (n mod 10)"

definition formatYmd :: "int option \<Rightarrow> string" where
  "formatYmd date =
     (case date of
        None \<Rightarrow> ''Invalid Date''
      | Some z \<Rightarrow>
          (case civilFromDays z of (y, m, d) \<Rightarrow>
             [digitChar (y div 1000), digitChar (y div 100), digitChar (y div 10), digitChar y,
              CHR ''-'', digitChar (m div 10), digitChar m,
              CHR ''-'', digitChar (d div 10), digitChar d]))"

definition digitVal :: "char \<Rightarrow> int option" where
  "digitVal c = (let n = of_char c :: int in if 48 \<le> n \<and> n \<le> 57 then Some (n - 48) else None)"

fun numberOf :: "int \<Rightarrow> string \<Rightarrow> int option" where
  "numberOf acc [] = Some acc"
| "numberOf acc (c # cs) =
     (case digitVal c of None \<Rightarrow> None | Some v \<Rightarrow> numberOf (acc * 10 + v) cs)"

definition parseYmd :: "string \<Rightarrow> int option" where
  "parseYmd s =
     (if length s = 10 \<and> s ! 4 = CHR ''-'' \<and> s ! 7 = CHR ''-''
      then (case (numberOf 0 (take 4 s), numberOf 0 (take 2 (drop 5 s)), numberOf 0 (drop 8 s)) of
              (Some y, Some m, Some d) \<Rightarrow>
                if 1 \<le> m \<and> m \<le> 12 \<and> 1 \<le> d \<and> d \<le> 31 then Some (daysFromCivil y m d) else None
            | _ \<Rightarrow> None)
      else None)"

definition utcDates :: "int option datefns" where
  "utcDates =
     \<lparr>parseISO = parseYmd,
      differenceInDays = (\<lambda>later earlier.
         case (later, earlier) of (Some a, Some b) \<Rightarrow> Some (a - b) | _ \<Rightarrow> None),
      addDays = (\<lambda>date n. map_option (\<lambda>z. z + n) date),
      format_ymd = formatYmd,
      newDate = (\<lambda>ms. Some (ms div 86400000))\<rparr>"

definition quake :: "string \<Rightarrow> real \<Rightarrow> int \<Rightarrow> EarthquakeFeature" where
  "quake i m t = \<lparr>properties = \<lparr>mag = m, place = ''somewhere'', time = t\<rparr>, feature_id = i\<rparr>"

definition filtersFor :: "string \<Rightarrow> string \<Rightarrow> EarthquakeFilters" where
  "filtersFor start end =
     \<lparr>startTime = start, endTime = end, minMagnitude = 0, maxMagnitude = None,
      minLatitude = None, maxLatitude = None, minLongitude = None, maxLongitude = None,
      limit = 100, offset = 0\<rparr>"

text \<open>A serialiser under which every response is \<open>n\<close> characters long.\<close>

definition jsonOfLength :: "nat \<Rightarrow> EarthquakeResponse \<Rightarrow> string" where
  "jsonOfLength n response = replicate n CHR ''x''"

definition responseOf :: "EarthquakeFeature list \<Rightarrow> EarthquakeResponse" where
  "responseOf earthquakes = \<lparr>features = earthquakes\<rparr>"


text \<open>The records and filters of the examples.\<close>

definition scenarioQuakes :: "EarthquakeFeature list" where
  "scenarioQuakes =
     [quake ''a'' 2.5 1704067200000, quake ''b'' 6.1 1704070800000, quake ''c'' 4.0 1704074400000]"

definition tiedQuakes :: "EarthquakeFeature list" where
  "tiedQuakes = [quake ''first'' 5 1704067200000, quake ''second'' 5 1704070800000]"

definition oneDay :: EarthquakeFilters where
  "oneDay = filtersFor ''2024-01-01'' ''2024-01-01''"

definition sampledQuakes :: "EarthquakeFeature list" where
  "sampledQuakes =
     [quake ''a'' 2.5 1704067200000, quake ''b'' 6.1 1704160000000, quake ''c'' 4.0 1704080000000]"

definition sampledFilters :: EarthquakeFilters where
  "sampledFilters = filtersFor ''2024-01-01'' ''2024-04-10''"

definition oneEntryCache :: "int \<Rightarrow> int \<Rightarrow> ServiceCache" where
  "oneEntryCache t sz =
     \<lparr>cache = [(''k'', \<lparr>data = responseOf [], timestamp = t, size_bytes = sz\<rparr>)],
      currentCacheSize = sz\<rparr>"


definition equatorBox :: EarthquakeFilters where
  "equatorBox = (filtersFor ''2024-01-01'' ''2024-01-31'')
     \<lparr>minLatitude := Some 0, maxLatitude := Some 10,
      minLongitude := Some 20, maxLongitude := Some 30\<rparr>"


definition exampleOps :: "cache_op list" where
  "exampleOps =
     [Add ''a'' (responseOf []) 0 0, Get ''a'' 1000, Add ''b'' (responseOf []) 2000 2000,
      Cleanup 1801000, Get ''b'' 1802001, Add ''a'' (responseOf []) 1900000 1900000]"


definition exampleRuntime :: "int option runtime" where
  "exampleRuntime =
     \<lparr>datefns = utcDates, jsonOfResponse = jsonOfLength 1000,
      jsonOfFilters = (\<lambda>filters. startTime filters @ ''/'' @ endTime filters)\<rparr>"


section \<open>Summary of an empty record list\<close>

text \<open>
  C9. For the empty list of records and any filter, the summary has count 0, average
  magnitude 0, no strongest record, an empty per-day series and an empty magnitude
  distribution. Processing a response without records publishes this summary on the
  summary channel and leaves the error channel as it is: the empty result is a summary,
  not an error.
\<close>

theorem generateSummary_empty:
  "generateSummary D [] filters =
     \<lparr>count = 0, averageMagnitude = 0, strongestEarthquake = None,
      frequencyPerDay = [], magnitudeDistribution = []\<rparr>
   \<and> summarySubject (processResponse R \<lparr>features = []\<rparr> filters s) =
       Some \<lparr>count = 0, averageMagnitude = 0, strongestEarthquake = None,
             frequencyPerDay = [], magnitudeDistribution = []\<rparr>
   \<and> earthquakesSubject (processResponse R \<lparr>features = []\<rparr> filters s) = []
   \<and> errorSubject (processResponse R \<lparr>features = []\<rparr> filters s) = errorSubject s"
  by (simp add: generateSummary_def processResponse_def)


section \<open>The strongest record\<close>

lemma foldl_stronger_last_max:
  "\<exists>pre post. x # xs = pre @ foldl stronger x xs # post
      \<and> (\<forall>e \<in> set pre. mag (properties e) \<le> mag (properties (foldl stronger x xs)))
      \<and> (\<forall>e \<in> set post. mag (properties e) < mag (properties (foldl stronger x xs)))"
proof (induction xs rule: rev_induct)
  case Nil
  have "[x] = [] @ foldl stronger x [] # []" by simp
  then show ?case by fastforce
next
  case (snoc y ys)
  let ?r = "foldl stronger x ys"
  from snoc obtain pre post where dec: "x # ys = pre @ ?r # post"
    and le: "\<forall>e \<in> set pre. mag (properties e) \<le> mag (properties ?r)"
    and lt: "\<forall>e \<in> set post. mag (properties e) < mag (properties ?r)"
    by blast
  show ?case
  proof (cases "mag (properties ?r) > mag (properties y)")
    case True
    then have res: "foldl stronger x (ys @ [y]) = ?r" by (simp add: stronger_def)
    have "x # ys @ [y] = pre @ ?r # (post @ [y])" using dec by simp
    moreover have "\<forall>e \<in> set (post @ [y]). mag (properties e) < mag (properties ?r)"
      using lt True by simp
    ultimately show ?thesis using le res by metis
  next
    case False
    then have res: "foldl stronger x (ys @ [y]) = y" by (simp add: stronger_def)
    have all: "\<forall>e \<in> set (x # ys). mag (properties e) \<le> mag (properties ?r)"
    proof
      fix e assume "e \<in> set (x # ys)"
      then have "e \<in> set pre \<or> e = ?r \<or> e \<in> set post" using dec by auto
      then show "mag (properties e) \<le> mag (properties ?r)" using le lt by fastforce
    qed
    have "x # ys @ [y] = (x # ys) @ y # []" by simp
    moreover have "\<forall>e \<in> set (x # ys). mag (properties e) \<le> mag (properties y)"
      using all False by fastforce
    moreover have "\<forall>e \<in> set []. mag (properties e) < mag (properties y)" by simp
    ultimately show ?thesis unfolding res by blast
  qed
qed

text \<open>
  C1, as the code has it. For every non-empty list of records the summary's strongest
  record \<open>s\<close> is a record of the list, no record before it is stronger, and every record
  after it is strictly weaker: among the records that share the maximum magnitude the
  strongest is the last one in input order (\<open>reduce\<close> keeps the accumulator only when it
  is strictly greater).
\<close>

theorem strongest_is_last_maximum:
  assumes "earthquakes \<noteq> []"
  shows "\<exists>pre s post.
           strongestEarthquake (generateSummary D earthquakes filters) = Some s
         \<and> earthquakes = pre @ s # post
         \<and> (\<forall>e \<in> set pre. mag (properties e) \<le> mag (properties s))
         \<and> (\<forall>e \<in> set post. mag (properties e) < mag (properties s))"
proof -
  from assms obtain x xs where e: "earthquakes = x # xs" by (cases earthquakes) auto
  have "strongestEarthquake (generateSummary D earthquakes filters) = Some (foldl stronger x xs)"
    by (simp add: e generateSummary_def)
  then show ?thesis using foldl_stronger_last_max [of x xs] e by metis
qed

text \<open>The theorem at two records of magnitude 5.\<close>

theorem strongest_is_last_maximum_witness:
  "tiedQuakes \<noteq> []
   \<and> (\<exists>pre s post.
         strongestEarthquake (generateSummary utcDates tiedQuakes oneDay) = Some s
       \<and> tiedQuakes = pre @ s # post
       \<and> (\<forall>e \<in> set pre. mag (properties e) \<le> mag (properties s))
       \<and> (\<forall>e \<in> set post. mag (properties e) < mag (properties s)))"
proof -
  have h: "tiedQuakes \<noteq> []" by (simp add: tiedQuakes_def)
  from strongest_is_last_maximum [OF h, where D = utcDates and filters = oneDay] h
  show ?thesis by (rule_tac conjI)
qed

text \<open>
  Two records share the maximum magnitude 5; the summary's strongest record is the
  second one, not the first.
\<close>

theorem strongest_tie_takes_later_record:
  "strongestEarthquake
     (generateSummary utcDates
        [quake ''first'' 5 1704067200000, quake ''second'' 5 1704070800000]
        (filtersFor ''2024-01-01'' ''2024-01-01''))
     = Some (quake ''second'' 5 1704070800000)
   \<and> quake ''second'' 5 1704070800000 \<noteq> quake ''first'' 5 1704067200000
   \<and> mag (properties (quake ''first'' 5 1704067200000))
       = mag (properties (quake ''second'' 5 1704070800000))"
  by (simp add: generateSummary_def stronger_def quake_def)


section \<open>The magnitude histogram\<close>

lemma magnitudeDistributionOf_eq:
  "magnitudeDistributionOf earthquakes =
     [(''0-2'', magnitudesIn 0 2 earthquakes), (''2-4'', magnitudesIn 2 4 earthquakes),
      (''4-6'', magnitudesIn 4 6 earthquakes), (''6-8'', magnitudesIn 6 8 earthquakes),
      (''8+'', magnitudesFrom 8 earthquakes)]"
  by (simp add: magnitudeDistributionOf_def magnitudeRanges_def inRange_def [abs_def]
      magnitudesIn_def magnitudesFrom_def)

lemma buckets_partition:
  "magnitudesIn 0 2 es + magnitudesIn 2 4 es + magnitudesIn 4 6 es + magnitudesIn 6 8 es
     + magnitudesFrom 8 es = magnitudesFrom 0 es"
  by (induction es) (auto simp: magnitudesIn_def magnitudesFrom_def)

lemma ranges_holding_a_record:
  "length (filter (\<lambda>r. inRange r eq) magnitudeRanges) = (if 0 \<le> mag (properties eq) then 1 else 0)"
  by (simp add: magnitudeRanges_def inRange_def)

text \<open>
  C2, as the code has it. For every non-empty list of records the histogram has the five
  buckets [0,2), [2,4), [4,6), [6,8) and [8,\<infinity>), in this order; a record of magnitude at
  least 0 is in exactly one of the five ranges and a record of negative magnitude in
  none; so the five counts add up to the number of records of magnitude at least 0, which
  is the record count when no magnitude is negative.
\<close>

theorem histogram_counts_nonnegative_magnitudes:
  assumes "earthquakes \<noteq> []"
  shows "magnitudeDistribution (generateSummary D earthquakes filters) =
           [(''0-2'', magnitudesIn 0 2 earthquakes), (''2-4'', magnitudesIn 2 4 earthquakes),
            (''4-6'', magnitudesIn 4 6 earthquakes), (''6-8'', magnitudesIn 6 8 earthquakes),
            (''8+'', magnitudesFrom 8 earthquakes)]
       \<and> (\<forall>eq \<in> set earthquakes.
             length (filter (\<lambda>r. inRange r eq) magnitudeRanges)
               = (if 0 \<le> mag (properties eq) then 1 else 0))
       \<and> sum_list (map snd (magnitudeDistribution (generateSummary D earthquakes filters)))
           = magnitudesFrom 0 earthquakes
       \<and> ((\<forall>eq \<in> set earthquakes. 0 \<le> mag (properties eq)) \<longrightarrow>
             sum_list (map snd (magnitudeDistribution (generateSummary D earthquakes filters)))
               = count (generateSummary D earthquakes filters))"
proof -
  have dist: "magnitudeDistribution (generateSummary D earthquakes filters)
                = magnitudeDistributionOf earthquakes"
    and cnt: "count (generateSummary D earthquakes filters) = length earthquakes"
    using assms by (simp_all add: generateSummary_def)
  have total: "sum_list (map snd (magnitudeDistributionOf earthquakes))
                 = magnitudesFrom 0 earthquakes"
    using buckets_partition [of earthquakes] by (simp add: magnitudeDistributionOf_eq)
  have "magnitudesFrom 0 earthquakes = length earthquakes"
    if "\<forall>eq \<in> set earthquakes. 0 \<le> mag (properties eq)"
    using that by (simp add: magnitudesFrom_def)
  then show ?thesis
    using dist cnt total magnitudeDistributionOf_eq [of earthquakes] ranges_holding_a_record
    by simp
qed

text \<open>The theorem at three records of magnitudes 2.5, 6.1 and 4.0.\<close>

theorem histogram_counts_nonnegative_magnitudes_witness:
  "scenarioQuakes \<noteq> []
   \<and> list_all (\<lambda>eq. 0 \<le> mag (properties eq)) scenarioQuakes
   \<and> magnitudeDistribution (generateSummary utcDates scenarioQuakes oneDay) =
       [(''0-2'', 0), (''2-4'', 1), (''4-6'', 1), (''6-8'', 1), (''8+'', 0)]
   \<and> sum_list (map snd (magnitudeDistribution (generateSummary utcDates scenarioQuakes oneDay)))
       = count (generateSummary utcDates scenarioQuakes oneDay)"
proof -
  have h: "scenarioQuakes \<noteq> []" by (simp add: scenarioQuakes_def)
  have nn: "\<forall>eq \<in> set scenarioQuakes. 0 \<le> mag (properties eq)"
    by (simp add: scenarioQuakes_def quake_def)
  have v: "magnitudesIn 0 2 scenarioQuakes = 0" "magnitudesIn 2 4 scenarioQuakes = 1"
    "magnitudesIn 4 6 scenarioQuakes = 1" "magnitudesIn 6 8 scenarioQuakes = 1"
    "magnitudesFrom 8 scenarioQuakes = 0"
    by (simp_all add: magnitudesIn_def magnitudesFrom_def scenarioQuakes_def quake_def)
  note t = histogram_counts_nonnegative_magnitudes [OF h, where D = utcDates and filters = oneDay]
  from t have d: "magnitudeDistribution (generateSummary utcDates scenarioQuakes oneDay) =
       [(''0-2'', 0), (''2-4'', 1), (''4-6'', 1), (''6-8'', 1), (''8+'', 0)]"
    by (simp only: v)
  from t nn have "sum_list (map snd (magnitudeDistribution
        (generateSummary utcDates scenarioQuakes oneDay)))
       = count (generateSummary utcDates scenarioQuakes oneDay)"
    by blast
  moreover have "list_all (\<lambda>eq. 0 \<le> mag (properties eq)) scenarioQuakes"
    using nn by (simp only: list_all_iff)
  ultimately show ?thesis using h d by blast
qed

text \<open>
  One record of magnitude -1: it is in none of the five buckets, the counts add up to 0
  and the record count is 1.
\<close>

theorem negative_magnitude_in_no_bucket:
  "sum_list (map snd (magnitudeDistribution
       (generateSummary utcDates [quake ''tiny'' (-1) 1704067200000]
          (filtersFor ''2024-01-01'' ''2024-01-01'')))) = 0
   \<and> count (generateSummary utcDates [quake ''tiny'' (-1) 1704067200000]
          (filtersFor ''2024-01-01'' ''2024-01-01'')) = 1"
  by (simp add: generateSummary_def magnitudeDistributionOf_def magnitudeRanges_def inRange_def
      quake_def)


section \<open>The per-day series\<close>

lemma sum_update_bump:
  "sum_list (map snd (AList.update k (getOrZero m k + 1) m)) = sum_list (map snd m) + 1"
  by (induction m) (auto simp: getOrZero_def)

lemma countDay_sum: "sum_list (map snd (countDay D m eq)) = sum_list (map snd m) + 1"
  using sum_update_bump [of "dayKey D eq" m] by (simp add: countDay_def Let_def)

lemma foldl_countDay_sum:
  "sum_list (map snd (foldl (countDay D) m es)) = sum_list (map snd m) + length es"
  by (induction es arbitrary: m) (simp_all add: countDay_sum)

lemma countDay_distinct: "distinct (map fst m) \<Longrightarrow> distinct (map fst (countDay D m eq))"
  by (simp add: countDay_def Let_def distinct_update)

lemma foldl_countDay_distinct:
  "distinct (map fst m) \<Longrightarrow> distinct (map fst (foldl (countDay D) m es))"
  by (induction es arbitrary: m) (simp_all add: countDay_distinct)

lemma countDay_lookup:
  "map_of (countDay D m eq) k =
     (if k = dayKey D eq then Some (getOrZero m k + 1) else map_of m k)"
  by (simp add: countDay_def Let_def update_conv')

lemma foldl_countDay_lookup:
  "map_of (foldl (countDay D) m es) k =
     (if k \<in> dayKey D ` set es
      then Some (getOrZero m k + length (filter (\<lambda>eq. dayKey D eq = k) es))
      else map_of m k)"
proof (induction es arbitrary: m)
  case Nil
  then show ?case by simp
next
  case (Cons e es)
  have none: "filter (\<lambda>eq. dayKey D eq = k) es = []" if "k \<notin> dayKey D ` set es"
    using that by (auto simp: filter_empty_conv)
  show ?case
    by (auto simp: Cons.IH countDay_lookup getOrZero_def none)
qed

lemma update_zero:
  "\<forall>v \<in> snd ` set m. v = (0::nat) \<Longrightarrow> \<forall>v \<in> snd ` set (AList.update k 0 m). v = 0"
  by (induction m) auto

lemma seedDates_unfold:
  "seedDates D s d i m =
     (if i \<le> d
      then seedDates D s d (i + sampleInterval d) (AList.update (format_ymd D (addDays D s i)) 0 m)
      else m)"
  by (rule seedDates.simps)

lemma seedDates_zero:
  "\<forall>v \<in> snd ` set m. v = 0 \<Longrightarrow> \<forall>v \<in> snd ` set (seedDates D s d i m). v = 0"
proof (induction D s d i m rule: seedDates.induct)
  case (1 D startDate daysDiff i dateMap)
  let ?next = "AList.update (format_ymd D (addDays D startDate i)) 0 dateMap"
  show ?case
  proof (cases "i \<le> daysDiff")
    case True
    have z: "\<forall>v \<in> snd ` set ?next. v = 0"
      using "1.prems" by (rule update_zero)
    have "\<forall>v \<in> snd ` set (seedDates D startDate daysDiff (i + sampleInterval daysDiff) ?next).
            v = 0"
      using True z by (rule "1.IH")
    moreover have "seedDates D startDate daysDiff i dateMap =
        seedDates D startDate daysDiff (i + sampleInterval daysDiff) ?next"
      using True seedDates_unfold [of D startDate daysDiff i dateMap] by (simp only: if_True)
    ultimately show ?thesis by (simp only:)
  next
    case False
    have "seedDates D startDate daysDiff i dateMap = dateMap"
      using False seedDates_unfold [of D startDate daysDiff i dateMap] by (simp only: if_False)
    then show ?thesis using "1.prems" by (simp only:)
  qed
qed

lemma seedDates_distinct:
  "distinct (map fst m) \<Longrightarrow> distinct (map fst (seedDates D s d i m))"
proof (induction D s d i m rule: seedDates.induct)
  case (1 D startDate daysDiff i dateMap)
  let ?next = "AList.update (format_ymd D (addDays D startDate i)) 0 dateMap"
  show ?case
  proof (cases "i \<le> daysDiff")
    case True
    have z: "distinct (map fst ?next)"
      using "1.prems" by (rule distinct_update)
    have "distinct (map fst (seedDates D startDate daysDiff (i + sampleInterval daysDiff) ?next))"
      using True z by (rule "1.IH")
    moreover have "seedDates D startDate daysDiff i dateMap =
        seedDates D startDate daysDiff (i + sampleInterval daysDiff) ?next"
      using True seedDates_unfold [of D startDate daysDiff i dateMap] by (simp only: if_True)
    ultimately show ?thesis by (simp only:)
  next
    case False
    have "seedDates D startDate daysDiff i dateMap = dateMap"
      using False seedDates_unfold [of D startDate daysDiff i dateMap] by (simp only: if_False)
    then show ?thesis using "1.prems" by (simp only:)
  qed
qed

lemma seededDates_zero: "\<forall>v \<in> snd ` set (seededDates D f). v = 0"
proof (cases "differenceInDays D (parseISO D (endTime f)) (parseISO D (startTime f))")
  case None
  then show ?thesis by (simp add: seededDates_def)
next
  case (Some daysDiff)
  have "\<forall>v \<in> snd ` set (seedDates D (parseISO D (startTime f)) daysDiff 0 []). v = 0"
    by (rule seedDates_zero) simp
  then show ?thesis by (simp add: seededDates_def Some)
qed

lemma seededDates_distinct: "distinct (map fst (seededDates D f))"
proof (cases "differenceInDays D (parseISO D (endTime f)) (parseISO D (startTime f))")
  case None
  then show ?thesis by (simp add: seededDates_def)
next
  case (Some daysDiff)
  have "distinct (map fst (seedDates D (parseISO D (startTime f)) daysDiff 0 []))"
    by (rule seedDates_distinct) simp
  then show ?thesis by (simp add: seededDates_def Some)
qed

lemma zero_sum: "\<forall>v \<in> snd ` set m. v = (0::nat) \<Longrightarrow> sum_list (map snd m) = 0"
  by (induction m) auto

lemma zero_getOrZero: "\<forall>v \<in> snd ` set m. v = (0::nat) \<Longrightarrow> getOrZero m k = 0"
  by (force simp: getOrZero_def split: option.splits dest!: map_of_SomeD)

text \<open>
  C6. For every non-empty list of records and every filter, the per-day series has one
  bucket per day key; every record's own day has a bucket, seeded or not, and the count
  of every bucket is the number of records of that day. So each record is counted in
  exactly one bucket, and the counts of the series add up to the number of records,
  whatever days the sampling loop has seeded.
\<close>

theorem frequency_counts_every_record:
  assumes "earthquakes \<noteq> []"
  shows "distinct (map fst (frequencyPerDay (generateSummary D earthquakes filters)))
       \<and> sum_list (map snd (frequencyPerDay (generateSummary D earthquakes filters)))
           = length earthquakes
       \<and> (\<forall>eq \<in> set earthquakes.
             map_of (frequencyPerDay (generateSummary D earthquakes filters)) (dayKey D eq)
               = Some (length (filter (\<lambda>e. dayKey D e = dayKey D eq) earthquakes)))
       \<and> (\<forall>d n. (d, n) \<in> set (frequencyPerDay (generateSummary D earthquakes filters)) \<longrightarrow>
             n = length (filter (\<lambda>e. dayKey D e = d) earthquakes))"
proof -
  let ?fpd = "frequencyPerDay (generateSummary D earthquakes filters)"
  have fpd: "?fpd = foldl (countDay D) (seededDates D filters) earthquakes"
    using assms by (simp add: generateSummary_def frequencyPerDayOf_def)
  have d: "distinct (map fst ?fpd)"
    unfolding fpd by (rule foldl_countDay_distinct) (rule seededDates_distinct)
  have s: "sum_list (map snd ?fpd) = length earthquakes"
    unfolding fpd by (simp add: foldl_countDay_sum zero_sum [OF seededDates_zero])
  have look: "map_of ?fpd k =
     (if k \<in> dayKey D ` set earthquakes
      then Some (length (filter (\<lambda>eq. dayKey D eq = k) earthquakes))
      else map_of (seededDates D filters) k)" for k
    unfolding fpd by (simp add: foldl_countDay_lookup zero_getOrZero [OF seededDates_zero])
  have a: "\<forall>eq \<in> set earthquakes. map_of ?fpd (dayKey D eq)
               = Some (length (filter (\<lambda>e. dayKey D e = dayKey D eq) earthquakes))"
    by (simp add: look)
  have b: "n = length (filter (\<lambda>e. dayKey D e = d) earthquakes)" if "(d, n) \<in> set ?fpd" for d n
  proof -
    have m: "map_of ?fpd d = Some n" using that d by simp
    show ?thesis
    proof (cases "d \<in> dayKey D ` set earthquakes")
      case True
      then show ?thesis using m look [of d] by simp
    next
      case False
      then have "map_of (seededDates D filters) d = Some n" using m look [of d] by simp
      then have "n = 0" using seededDates_zero [of D filters] by (force dest!: map_of_SomeD)
      moreover have "filter (\<lambda>e. dayKey D e = d) earthquakes = []"
        using False by (auto simp: filter_empty_conv)
      ultimately show ?thesis by simp
    qed
  qed
  show ?thesis using d s a b by blast
qed

text \<open>
  The theorem at three records and a span of 100 days, sampled every second day: the
  record \<open>b\<close> falls on 2024-01-02, which the sampling loop has not seeded.
\<close>

lemma sampled_example:
  "differenceInDays utcDates (parseISO utcDates (endTime sampledFilters))
       (parseISO utcDates (startTime sampledFilters)) = Some 100
   \<and> sampleInterval 100 = 2
   \<and> map_of (seededDates utcDates sampledFilters) ''2024-01-02'' = None
   \<and> map (dayKey utcDates) sampledQuakes = [''2024-01-01'', ''2024-01-02'', ''2024-01-01'']"
  by code_simp

theorem frequency_counts_every_record_witness:
  "sampledQuakes \<noteq> []
   \<and> sum_list (map snd (frequencyPerDay (generateSummary utcDates sampledQuakes sampledFilters)))
       = 3
   \<and> map_of (frequencyPerDay (generateSummary utcDates sampledQuakes sampledFilters))
         ''2024-01-02'' = Some 1
   \<and> map_of (frequencyPerDay (generateSummary utcDates sampledQuakes sampledFilters))
         ''2024-01-01'' = Some 2"
proof -
  have h: "sampledQuakes \<noteq> []" by (simp add: sampledQuakes_def)
  have len: "length sampledQuakes = 3" by (simp add: sampledQuakes_def)
  have keys: "dayKey utcDates (quake ''a'' 2.5 1704067200000) = ''2024-01-01''"
    "dayKey utcDates (quake ''b'' 6.1 1704160000000) = ''2024-01-02''"
    "dayKey utcDates (quake ''c'' 4.0 1704080000000) = ''2024-01-01''"
    using sampled_example by (simp_all add: sampledQuakes_def)
  note t = frequency_counts_every_record [OF h, where D = utcDates and filters = sampledFilters]
  from t have s: "sum_list (map snd (frequencyPerDay
        (generateSummary utcDates sampledQuakes sampledFilters))) = 3"
    using len by simp
  from t have all: "\<forall>eq \<in> set sampledQuakes.
       map_of (frequencyPerDay (generateSummary utcDates sampledQuakes sampledFilters))
         (dayKey utcDates eq)
       = Some (length (filter (\<lambda>e. dayKey utcDates e = dayKey utcDates eq) sampledQuakes))"
    by blast
  have cnt: "length (filter (\<lambda>e. dayKey utcDates e = ''2024-01-02'') sampledQuakes) = 1"
    "length (filter (\<lambda>e. dayKey utcDates e = ''2024-01-01'') sampledQuakes) = 2"
    using keys by (simp_all add: sampledQuakes_def)
  have "quake ''b'' 6.1 1704160000000 \<in> set sampledQuakes"
    "quake ''a'' 2.5 1704067200000 \<in> set sampledQuakes"
    by (simp_all add: sampledQuakes_def)
  with all keys cnt
  have "map_of (frequencyPerDay (generateSummary utcDates sampledQuakes sampledFilters))
          ''2024-01-02'' = Some 1"
    "map_of (frequencyPerDay (generateSummary utcDates sampledQuakes sampledFilters))
          ''2024-01-01'' = Some 2"
    by metis+
  with h s show ?thesis by blast
qed


section \<open>Size bookkeeping of the cache\<close>

lemma entrySizes_Cons [simp]: "entrySizes (p # al) = size_bytes (snd p) + entrySizes al"
  by (simp add: entrySizes_def)

lemma entrySizes_Nil [simp]: "entrySizes [] = 0"
  by (simp add: entrySizes_def)

lemma entrySizes_delete:
  "distinct (map fst al) \<Longrightarrow> (k, e) \<in> set al \<Longrightarrow>
     entrySizes (AList.delete k al) = entrySizes al - size_bytes e"
proof (induction al)
  case Nil
  then show ?case by simp
next
  case (Cons p al)
  show ?case
  proof (cases "fst p = k")
    case True
    then have notin: "k \<notin> fst ` set al" using Cons.prems(1) by auto
    then have "(k, e) \<notin> set al" by force
    then have "p = (k, e)" using Cons.prems(2) by simp
    then show ?thesis using notin by simp
  next
    case False
    then have "(k, e) \<in> set al" using Cons.prems(2) by auto
    then show ?thesis using Cons False by simp
  qed
qed

lemma entrySizes_update_fresh:
  "k \<notin> fst ` set al \<Longrightarrow> entrySizes (AList.update k v al) = entrySizes al + size_bytes v"
  by (induction al) auto

lemma set_delete_subset: "set (AList.delete k al) \<subseteq> set al"
  by (auto simp: AList.delete_eq)

lemma dropEntry_inv:
  assumes "cacheInv s" "(k, e) \<in> set (cache s)"
  shows "cacheInv (dropEntry k e s)"
    and "currentCacheSize (dropEntry k e s) \<le> currentCacheSize s"
    and "set (cache (dropEntry k e s)) \<subseteq> set (cache s)"
proof -
  have d: "distinct (map fst (cache s))" and nn: "\<forall>e \<in> set (cache s). 0 \<le> size_bytes (snd e)"
    and sz: "currentCacheSize s = entrySizes (cache s)"
    using assms(1) by (simp_all add: cacheInv_def)
  show "set (cache (dropEntry k e s)) \<subseteq> set (cache s)"
    by (simp add: dropEntry_def set_delete_subset)
  then show "cacheInv (dropEntry k e s)"
    using d nn sz entrySizes_delete [OF d assms(2)]
    by (auto simp: cacheInv_def dropEntry_def distinct_delete)
  show "currentCacheSize (dropEntry k e s) \<le> currentCacheSize s"
    using nn assms(2) by (fastforce simp: dropEntry_def)
qed

lemma removeExpired_inv:
  "cacheInv s \<Longrightarrow> set es \<subseteq> set (cache s) \<Longrightarrow> distinct (map fst es) \<Longrightarrow>
     cacheInv (removeExpired now es s)
     \<and> currentCacheSize (removeExpired now es s) \<le> currentCacheSize s
     \<and> set (cache (removeExpired now es s)) \<subseteq> set (cache s)"
proof (induction es arbitrary: s)
  case Nil
  then show ?case by simp
next
  case (Cons p es)
  obtain k e where p: "p = (k, e)" by (cases p)
  have mem: "(k, e) \<in> set (cache s)" using Cons.prems(2) p by simp
  let ?s' = "if now - timestamp e > CACHE_DURATION then dropEntry k e s else s"
  have inv': "cacheInv ?s'" using dropEntry_inv(1) [OF Cons.prems(1) mem] Cons.prems(1) by simp
  have le': "currentCacheSize ?s' \<le> currentCacheSize s"
    using dropEntry_inv(2) [OF Cons.prems(1) mem] by simp
  have sub': "set (cache ?s') \<subseteq> set (cache s)"
    using dropEntry_inv(3) [OF Cons.prems(1) mem] by simp
  have knot: "k \<notin> fst ` set es" using Cons.prems(3) p by simp
  have "set es \<subseteq> set (cache ?s')"
  proof
    fix q assume q: "q \<in> set es"
    then have "q \<in> set (cache s)" using Cons.prems(2) by auto
    moreover have "fst q \<noteq> k" using q knot by auto
    ultimately show "q \<in> set (cache ?s')"
      by (auto simp: dropEntry_def AList.delete_eq)
  qed
  moreover have "distinct (map fst es)" using Cons.prems(3) by simp
  ultimately have IH: "cacheInv (removeExpired now es ?s')
     \<and> currentCacheSize (removeExpired now es ?s') \<le> currentCacheSize ?s'
     \<and> set (cache (removeExpired now es ?s')) \<subseteq> set (cache ?s')"
    using Cons.IH [OF inv'] by blast
  have "removeExpired now (p # es) s = removeExpired now es ?s'" by (simp add: p)
  then show ?case using IH le' sub' by auto
qed

lemma evictOldest_inv:
  "cacheInv s \<Longrightarrow> set es \<subseteq> set (cache s) \<Longrightarrow> distinct (map fst es) \<Longrightarrow>
     cacheInv (evictOldest es s)
     \<and> currentCacheSize (evictOldest es s) \<le> currentCacheSize s
     \<and> set (cache (evictOldest es s)) \<subseteq> set (cache s)"
proof (induction es arbitrary: s)
  case Nil
  then show ?case by simp
next
  case (Cons p es)
  obtain k e where p: "p = (k, e)" by (cases p)
  have mem: "(k, e) \<in> set (cache s)" using Cons.prems(2) p by simp
  let ?s' = "dropEntry k e s"
  note d = dropEntry_inv [OF Cons.prems(1) mem]
  have knot: "k \<notin> fst ` set es" using Cons.prems(3) p by simp
  have "set es \<subseteq> set (cache ?s')"
  proof
    fix q assume q: "q \<in> set es"
    then have "q \<in> set (cache s)" using Cons.prems(2) by auto
    moreover have "fst q \<noteq> k" using q knot by auto
    ultimately show "q \<in> set (cache ?s')"
      by (auto simp: dropEntry_def AList.delete_eq)
  qed
  moreover have "distinct (map fst es)" using Cons.prems(3) by simp
  ultimately have IH: "cacheInv (evictOldest es ?s')
     \<and> currentCacheSize (evictOldest es ?s') \<le> currentCacheSize ?s'
     \<and> set (cache (evictOldest es ?s')) \<subseteq> set (cache ?s')"
    using Cons.IH [OF d(1)] by blast
  have "evictOldest (p # es) s =
      (if real_of_int (currentCacheSize ?s') \<le> real_of_int MAX_CACHE_SIZE * 0.8
       then ?s' else evictOldest es ?s')"
    by (simp add: p Let_def)
  then show ?case using IH d by auto
qed

lemma cleanupCache_inv:
  assumes "cacheInv s"
  shows "cacheInv (cleanupCache now s)
     \<and> currentCacheSize (cleanupCache now s) \<le> currentCacheSize s
     \<and> set (cache (cleanupCache now s)) \<subseteq> set (cache s)"
proof -
  let ?s1 = "removeExpired now (cache s) s"
  have d: "distinct (map fst (cache s))" using assms by (simp add: cacheInv_def)
  have r: "cacheInv ?s1 \<and> currentCacheSize ?s1 \<le> currentCacheSize s
      \<and> set (cache ?s1) \<subseteq> set (cache s)"
    using removeExpired_inv [OF assms _ d] by simp
  let ?es = "sort_key (\<lambda>e. timestamp (snd e)) (cache ?s1)"
  have "set ?es \<subseteq> set (cache ?s1)" by simp
  moreover have "distinct (map fst ?es)"
  proof -
    have "distinct (map fst (cache ?s1))" using r by (simp add: cacheInv_def)
    then show ?thesis by (simp add: distinct_map)
  qed
  ultimately have e: "cacheInv (evictOldest ?es ?s1)
     \<and> currentCacheSize (evictOldest ?es ?s1) \<le> currentCacheSize ?s1
     \<and> set (cache (evictOldest ?es ?s1)) \<subseteq> set (cache ?s1)"
    using evictOldest_inv r by blast
  show ?thesis using r e by (auto simp: cleanupCache_def Let_def)
qed

lemma getFromCache_inv:
  assumes "cacheInv s"
  shows "cacheInv (snd (getFromCache key now s))
     \<and> currentCacheSize (snd (getFromCache key now s)) \<le> currentCacheSize s"
proof (cases "map_of (cache s) key")
  case None
  then show ?thesis using assms by (simp add: getFromCache_def)
next
  case (Some cached)
  then have "(key, cached) \<in> set (cache s)" by (rule map_of_SomeD)
  from dropEntry_inv [OF assms this] assms Some show ?thesis
    by (simp add: getFromCache_def)
qed

lemma storeEntry_inv:
  assumes "cacheInv s" "key \<notin> fst ` set (cache s)" "0 \<le> sz"
  shows "cacheInv (storeEntry key dat now sz s)"
proof -
  let ?v = "\<lparr>data = dat, timestamp = now, size_bytes = sz\<rparr>"
  have "\<forall>e \<in> set (AList.update key ?v (cache s)). 0 \<le> size_bytes (snd e)"
  proof
    fix e assume "e \<in> set (AList.update key ?v (cache s))"
    moreover have "set (AList.update key ?v al) \<subseteq> insert (key, ?v) (set al)" for al
      by (induction al) auto
    ultimately have "e = (key, ?v) \<or> e \<in> set (cache s)" by blast
    then show "0 \<le> size_bytes (snd e)" using assms(1,3) by (auto simp: cacheInv_def)
  qed
  then show ?thesis
    using assms by (simp add: cacheInv_def storeEntry_def distinct_update entrySizes_update_fresh)
qed

lemma addToCache_inv:
  assumes "cacheInv s" "currentCacheSize s \<le> MAX_CACHE_SIZE" "key \<notin> fst ` set (cache s)"
  shows "cacheInv (addToCache stringify key dat nowCleanup now s)
     \<and> currentCacheSize (addToCache stringify key dat nowCleanup now s) \<le> MAX_CACHE_SIZE"
proof -
  let ?sz = "estimateObjectSize stringify dat"
  have nn: "0 \<le> ?sz" by (simp add: estimateObjectSize_def)
  let ?s1 = "cleanupCache nowCleanup s"
  note c = cleanupCache_inv [OF assms(1), of nowCleanup]
  have fresh1: "key \<notin> fst ` set (cache ?s1)" using c assms(3) by auto
  have i1: "cacheInv (storeEntry key dat now ?sz ?s1)"
    using storeEntry_inv c fresh1 nn by blast
  have i0: "cacheInv (storeEntry key dat now ?sz s)"
    using storeEntry_inv assms nn by blast
  have sz: "currentCacheSize (storeEntry key dat now ?sz t) = currentCacheSize t + ?sz" for t :: "'a ServiceCache_scheme"
    by (simp add: storeEntry_def)
  show ?thesis
    using c i0 i1 assms(2) sz by (auto simp: addToCache_def Let_def)
qed

lemma applyOp_inv:
  assumes "boundedInv s" "freshAdds stringify s [op]"
  shows "boundedInv (applyOp stringify s op)"
proof (cases op)
  case (Add key dat nowCleanup now)
  then have "key \<notin> fst ` set (cache s)" using assms(2) by simp
  then show ?thesis
    using addToCache_inv [of s key stringify dat nowCleanup now] assms(1) Add
    by (simp add: boundedInv_def)
next
  case (Get key now)
  then show ?thesis using getFromCache_inv [of s key now] assms(1) by (auto simp: boundedInv_def)
next
  case (Cleanup now)
  then show ?thesis using cleanupCache_inv [of s now] assms(1) by (auto simp: boundedInv_def)
qed

lemma run_inv:
  "boundedInv s \<Longrightarrow> freshAdds stringify s ops \<Longrightarrow> boundedInv (foldl (applyOp stringify) s ops)"
proof (induction ops arbitrary: s)
  case Nil
  then show ?case by simp
next
  case (Cons op ops)
  have "boundedInv (applyOp stringify s op)"
    using applyOp_inv [of s stringify op] Cons.prems by simp
  then show ?case using Cons by simp
qed

text \<open>
  C10. Starting from the empty cache, after every sequence of \<open>addToCache\<close> (each with
  a key the cache does not hold at that moment), \<open>getFromCache\<close> and \<open>cleanupCache\<close>,
  the tracked \<open>currentCacheSize\<close> is the sum of the sizes of the stored entries and is
  at most \<open>MAX_CACHE_SIZE\<close>; the bound holds after every operation, so in particular
  right after every \<open>addToCache\<close>.
\<close>

theorem tracked_size_is_sum_of_entries:
  assumes "freshAdds stringify emptyCache ops"
  shows "currentCacheSize (foldl (applyOp stringify) emptyCache ops)
           = entrySizes (cache (foldl (applyOp stringify) emptyCache ops))
       \<and> currentCacheSize (foldl (applyOp stringify) emptyCache ops) \<le> MAX_CACHE_SIZE"
proof -
  have "boundedInv emptyCache"
    by (simp add: boundedInv_def cacheInv_def emptyCache_def MAX_CACHE_SIZE_def)
  from run_inv [OF this assms] show ?thesis by (simp add: boundedInv_def cacheInv_def)
qed


lemmas cache_eval = emptyCache_def addToCache_def estimateObjectSize_def jsonOfLength_def
  MAX_CACHE_SIZE_def CACHE_DURATION_def cleanupCache_def getFromCache_def storeEntry_def
  dropEntry_def Let_def

text \<open>
  The theorem at a run over responses of 30,000,000 bytes each: \<open>a\<close> is stored, \<open>b\<close> does
  not fit beside it, the sweep removes \<open>a\<close> once it has expired, and \<open>a\<close> is stored anew.
\<close>

theorem tracked_size_is_sum_of_entries_witness:
  "freshAdds (jsonOfLength 15000000) emptyCache exampleOps
   \<and> currentCacheSize (foldl (applyOp (jsonOfLength 15000000)) emptyCache exampleOps)
       = entrySizes (cache (foldl (applyOp (jsonOfLength 15000000)) emptyCache exampleOps))
   \<and> currentCacheSize (foldl (applyOp (jsonOfLength 15000000)) emptyCache exampleOps)
       \<le> MAX_CACHE_SIZE"
proof -
  have h: "freshAdds (jsonOfLength 15000000) emptyCache exampleOps"
    by (simp add: exampleOps_def cache_eval)
  from tracked_size_is_sum_of_entries [OF h] h show ?thesis by (rule_tac conjI)
qed

lemma example_run:
  "map fst (cache (foldl (applyOp (jsonOfLength 15000000)) emptyCache exampleOps)) = [''a'']
   \<and> currentCacheSize (foldl (applyOp (jsonOfLength 15000000)) emptyCache exampleOps) = 30000000"
  by (simp add: exampleOps_def cache_eval)


section \<open>Cache retrieval and expiry\<close>

text \<open>
  C4, as the code has it. For a key the cache holds, \<open>getFromCache\<close> returns the stored
  payload and leaves the cache as it is when \<open>now\<close> minus the entry's timestamp is at
  most the TTL, so also when exactly the TTL has elapsed; when more than the TTL has
  elapsed it reports a miss, removes the entry (and no other) and takes the entry's size
  off the tracked size.
\<close>

theorem getFromCache_ttl:
  assumes "map_of (cache s) key = Some entry"
  shows "(now - timestamp entry \<le> CACHE_DURATION \<longrightarrow>
            getFromCache key now s = (Some (data entry), s))
       \<and> (now - timestamp entry > CACHE_DURATION \<longrightarrow>
            fst (getFromCache key now s) = None
          \<and> map_of (cache (snd (getFromCache key now s))) key = None
          \<and> (\<forall>k. k \<noteq> key \<longrightarrow>
                map_of (cache (snd (getFromCache key now s))) k = map_of (cache s) k)
          \<and> currentCacheSize (snd (getFromCache key now s))
              = currentCacheSize s - size_bytes entry)"
  using assms by (simp add: getFromCache_def dropEntry_def delete_conv')

text \<open>
  The theorem at an entry stored at time 0: read at 1,800,000 ms (the TTL) it is a hit,
  read one millisecond later it is a miss and the entry is gone.
\<close>

theorem getFromCache_ttl_witness:
  "getFromCache ''k'' 1800000 (oneEntryCache 0 10) = (Some (responseOf []), oneEntryCache 0 10)
   \<and> fst (getFromCache ''k'' 1800001 (oneEntryCache 0 10)) = None
   \<and> map_of (cache (snd (getFromCache ''k'' 1800001 (oneEntryCache 0 10)))) ''k'' = None
   \<and> currentCacheSize (snd (getFromCache ''k'' 1800001 (oneEntryCache 0 10))) = 0"
proof -
  have e: "map_of (cache (oneEntryCache 0 10)) ''k''
             = Some \<lparr>data = responseOf [], timestamp = 0, size_bytes = 10\<rparr>"
    by (simp add: oneEntryCache_def)
  show ?thesis
    using getFromCache_ttl [OF e, of 1800000] getFromCache_ttl [OF e, of 1800001]
    by (simp add: CACHE_DURATION_def oneEntryCache_def)
qed

text \<open>
  An entry stored at time 0 and read when exactly the TTL has elapsed: the payload is
  returned and the entry stays in the cache.
\<close>

theorem getFromCache_at_ttl_is_hit:
  "fst (getFromCache ''k'' 1800000 (oneEntryCache 0 10)) = Some (responseOf [])
   \<and> cache (snd (getFromCache ''k'' 1800000 (oneEntryCache 0 10))) = cache (oneEntryCache 0 10)
   \<and> 1800000 - timestamp (snd (hd (cache (oneEntryCache 0 10)))) = CACHE_DURATION"
  by (simp add: getFromCache_def oneEntryCache_def CACHE_DURATION_def)


section \<open>Cache admission\<close>




lemma removeExpired_live:
  "\<forall>e \<in> set es. now - timestamp (snd e) \<le> CACHE_DURATION \<Longrightarrow> removeExpired now es s = s"
  by (induction es arbitrary: s) auto

text \<open>
  In a cache within its budget that holds only live entries, a payload that does not fit
  beside them is dropped and nothing is evicted: \<open>cleanupCache\<close> compares the tracked
  size alone with the budget, without the incoming payload, before it evicts by age.
\<close>

lemma addToCache_skips_beside_live_entries:
  assumes "currentCacheSize s \<le> MAX_CACHE_SIZE"
    and "\<forall>e \<in> set (cache s). nowCleanup - timestamp (snd e) \<le> CACHE_DURATION"
    and "currentCacheSize s + estimateObjectSize stringify dat > MAX_CACHE_SIZE"
  shows "addToCache stringify key dat nowCleanup now s = s"
  using assms by (simp add: addToCache_def cleanupCache_def removeExpired_live Let_def)

text \<open>
  C3 at two responses of 30,000,000 bytes each and a budget of 52,428,800 bytes. The first
  is stored at time 0. The second, put a second later, does not fit beside the first;
  the specification has the first entry evicted and the second admitted, since the
  second alone is smaller than the budget. The code leaves the cache as it was: the
  second payload is skipped and the first entry stays.
\<close>

theorem fitting_payload_is_skipped:
  "addToCache (jsonOfLength 15000000) ''new'' (responseOf []) 1000 1000
       (addToCache (jsonOfLength 15000000) ''old'' (responseOf []) 0 0 emptyCache)
     = addToCache (jsonOfLength 15000000) ''old'' (responseOf []) 0 0 emptyCache
   \<and> map fst (cache (addToCache (jsonOfLength 15000000) ''old'' (responseOf []) 0 0 emptyCache))
       = [''old'']
   \<and> estimateObjectSize (jsonOfLength 15000000) (responseOf []) \<le> MAX_CACHE_SIZE"
  by (simp add: cache_eval)


section \<open>Bounding-box parameters of the request\<close>

text \<open>
  The four bounding-box parameters are set together or not at all, and they are set
  exactly when each of the four fields is a number other than zero.
\<close>

lemma bounding_box_all_or_none:
  "(if truthy (minLatitude f) \<and> truthy (maxLatitude f) \<and>
       truthy (minLongitude f) \<and> truthy (maxLongitude f)
    then set boundingBoxNames \<subseteq> fst ` set (buildRequestParams toString f)
    else set boundingBoxNames \<inter> fst ` set (buildRequestParams toString f) = {})"
  by (simp add: buildRequestParams_def setParam_def boundingBoxNames_def Let_def dom_update)

text \<open>
  C8 at a filter whose four bounding-box fields are all present, with the southern edge
  on the equator (\<open>minLatitude = 0\<close>): the request carries none of the four bounding-box
  parameters, because the condition tests the fields for truth and 0 is false.
\<close>

theorem zero_coordinate_drops_bounding_box:
  "hasBoundingBox equatorBox
   \<and> map fst (buildRequestParams toString equatorBox)
       = [''format'', ''starttime'', ''endtime'', ''minmagnitude'', ''limit'', ''offset'',
          ''orderby'']"
  by (simp add: hasBoundingBox_def equatorBox_def filtersFor_def buildRequestParams_def
      setParam_def truthy_def Let_def)


section \<open>Cancellation\<close>

lemma removeExpired_frame:
  "httpSubscription (removeExpired now es s) = httpSubscription s
   \<and> nextRequest (removeExpired now es s) = nextRequest s"
  by (induction es arbitrary: s) (auto simp: dropEntry_def)

lemma evictOldest_frame:
  "httpSubscription (evictOldest es s) = httpSubscription s
   \<and> nextRequest (evictOldest es s) = nextRequest s"
  by (induction es arbitrary: s) (auto simp: dropEntry_def Let_def)

lemma cleanupCache_frame:
  "httpSubscription (cleanupCache now s) = httpSubscription s
   \<and> nextRequest (cleanupCache now s) = nextRequest s"
  by (simp add: cleanupCache_def Let_def removeExpired_frame evictOldest_frame)

lemma getFromCache_frame:
  "httpSubscription (snd (getFromCache key now s)) = httpSubscription s
   \<and> nextRequest (snd (getFromCache key now s)) = nextRequest s"
  by (simp add: getFromCache_def dropEntry_def split: option.splits)

lemma cancel_frame:
  "httpSubscription (cancelCurrentRequest s) = None
   \<and> nextRequest (cancelCurrentRequest s) = nextRequest s"
  by (simp add: cancelCurrentRequest_def finalizeRequest_def stopProgressSimulation_def Let_def
      split: option.splits)

lemma processNextBatch_frame:
  "httpSubscription (processNextBatch R es f b s) = httpSubscription s
   \<and> nextRequest (processNextBatch R es f b s) = nextRequest s"
  by (simp add: processNextBatch_def Let_def)

lemma addToCache_frame:
  "httpSubscription (addToCache js key dat nowCleanup now s) = httpSubscription s
   \<and> nextRequest (addToCache js key dat nowCleanup now s) = nextRequest s"
  by (simp add: addToCache_def storeEntry_def cleanupCache_frame Let_def)

lemma processResponseInBatches_frame:
  "httpSubscription (processResponseInBatches R response f s) = httpSubscription s
   \<and> nextRequest (processResponseInBatches R response f s) = nextRequest s"
  by (simp add: processResponseInBatches_def processResponse_def Let_def)

lemma detachedBefore_cancel: "detachedBefore (nextRequest s) (cancelCurrentRequest s)"
  by (simp add: detachedBefore_def cancel_frame)

lemma detachedBefore_fetch:
  assumes "n \<le> nextRequest s"
  shows "detachedBefore n (fetchEarthquakes R filters now s)"
proof -
  let ?s2 = "(cancelCurrentRequest s)\<lparr>loadingSubject := True, errorSubject := None, progressSubject := 0\<rparr>"
  obtain res s3 where g: "getFromCache (jsonOfFilters R filters) now ?s2 = (res, s3)"
    by (cases "getFromCache (jsonOfFilters R filters) now ?s2")
  have f3: "httpSubscription s3 = None" "nextRequest s3 = nextRequest s"
    using getFromCache_frame [of "jsonOfFilters R filters" now ?s2] g by (simp_all add: cancel_frame)
  show ?thesis
    using assms f3 g
    by (cases res) (simp_all add: fetchEarthquakes_def Let_def detachedBefore_def processResponse_def)
qed

lemma detachedBefore_step:
  assumes "detachedBefore n s"
  shows "detachedBefore n (step R s e)"
proof (cases e)
  case (FetchEarthquakes filters now)
  then show ?thesis using detachedBefore_fetch [of n s] assms by (simp add: detachedBefore_def)
next
  case CancelCurrentRequest
  then show ?thesis using assms by (simp add: detachedBefore_def cancel_frame)
next
  case (HttpResponse request response nowCleanup now)
  then show ?thesis using assms
    by (auto simp: detachedBefore_def httpResponse_def finalizeRequest_def addToCache_frame
        processResponseInBatches_frame stopProgressSimulation_def Let_def split: option.splits)
next
  case (HttpFailure request timedOut)
  then show ?thesis using assms
    by (auto simp: detachedBefore_def httpFailure_def finalizeRequest_def cancel_frame
        stopProgressSimulation_def Let_def split: option.splits)
next
  case (ProgressTick progress)
  then show ?thesis using assms by (simp add: detachedBefore_def progressTick_def)
next
  case (TimerFired i)
  then show ?thesis using assms
    by (simp add: detachedBefore_def timerFired_def processNextBatch_frame Let_def
        split: timer.splits)
next
  case (CacheSweep now)
  then show ?thesis using assms by (simp add: detachedBefore_def cleanupCache_frame)
qed

lemma detachedBefore_run: "detachedBefore n s \<Longrightarrow> detachedBefore n (run R s events)"
  unfolding run_def by (induction events arbitrary: s) (simp_all add: detachedBefore_step)

lemma detached_response_ignored:
  assumes "detachedBefore n s" "request < n"
  shows "httpResponse R request response nowCleanup now s = s"
  using assms by (auto simp: detachedBefore_def httpResponse_def split: option.splits)

text \<open>
  C7. Let a request have been issued by some fetch, and let \<open>cancelCurrentRequest\<close> be
  called afterwards. Whatever happens next (further fetches, other responses, timers,
  cache sweeps), a response to that request arriving later leaves the whole service
  state as it is: the records channel, the summary channel, the cache and its tracked
  size are not touched.
\<close>

theorem cancelled_response_is_discarded:
  assumes "request < nextRequest (run R initialService before)"
  shows "run R initialService
           (before @ CancelCurrentRequest # after @ [HttpResponse request response nowCleanup now])
         = run R initialService (before @ CancelCurrentRequest # after)"
proof -
  let ?s = "run R initialService before"
  let ?t = "run R (cancelCurrentRequest ?s) after"
  have "detachedBefore (nextRequest ?s) ?t"
    by (rule detachedBefore_run) (rule detachedBefore_cancel)
  then have "httpResponse R request response nowCleanup now ?t = ?t"
    using assms by (rule detached_response_ignored)
  moreover have "run R initialService (before @ CancelCurrentRequest # after) = ?t"
    by (simp add: run_def)
  moreover have "run R initialService
           (before @ CancelCurrentRequest # after @ [HttpResponse request response nowCleanup now])
         = httpResponse R request response nowCleanup now ?t"
    by (simp add: run_def)
  ultimately show ?thesis by simp
qed


lemmas service_eval = run_def initialService_def fetchEarthquakes_def cancelCurrentRequest_def
  finalizeRequest_def stopProgressSimulation_def httpResponse_def processResponseInBatches_def
  processResponse_def exampleRuntime_def BATCH_SIZE_def responseOf_def scenarioQuakes_def

text \<open>
  The theorem at one fetch, cancelled before its response arrives.
\<close>

theorem cancelled_response_is_discarded_witness:
  "0 < nextRequest (run exampleRuntime initialService [FetchEarthquakes oneDay 0])
   \<and> run exampleRuntime initialService
         ([FetchEarthquakes oneDay 0] @ CancelCurrentRequest # []
            @ [HttpResponse 0 (responseOf scenarioQuakes) 5000 5000])
       = run exampleRuntime initialService ([FetchEarthquakes oneDay 0] @ CancelCurrentRequest # [])"
proof -
  have h: "0 < nextRequest (run exampleRuntime initialService [FetchEarthquakes oneDay 0])"
    by (simp add: service_eval getFromCache_def)
  from cancelled_response_is_discarded [OF h] h show ?thesis by (rule_tac conjI)
qed

text \<open>
  The same response with and without the cancellation: without it the records, the
  summary and the cache are updated; with it they stay as they were.
\<close>

lemma response_published_without_cancel:
  "earthquakesSubject (run exampleRuntime initialService
       [FetchEarthquakes oneDay 0, HttpResponse 0 (responseOf scenarioQuakes) 5000 5000])
     = scenarioQuakes
   \<and> map fst (cache (run exampleRuntime initialService
       [FetchEarthquakes oneDay 0, HttpResponse 0 (responseOf scenarioQuakes) 5000 5000]))
     = [''2024-01-01/2024-01-01'']
   \<and> summarySubject (run exampleRuntime initialService
       [FetchEarthquakes oneDay 0, HttpResponse 0 (responseOf scenarioQuakes) 5000 5000])
     \<noteq> None"
  by (simp add: service_eval cache_eval oneDay_def filtersFor_def)

lemma response_discarded_after_cancel:
  "earthquakesSubject (run exampleRuntime initialService
       [FetchEarthquakes oneDay 0, CancelCurrentRequest,
        HttpResponse 0 (responseOf scenarioQuakes) 5000 5000]) = []
   \<and> cache (run exampleRuntime initialService
       [FetchEarthquakes oneDay 0, CancelCurrentRequest,
        HttpResponse 0 (responseOf scenarioQuakes) 5000 5000]) = []
   \<and> summarySubject (run exampleRuntime initialService
       [FetchEarthquakes oneDay 0, CancelCurrentRequest,
        HttpResponse 0 (responseOf scenarioQuakes) 5000 5000]) = None"
  by (simp add: service_eval cache_eval oneDay_def filtersFor_def)

text \<open>A new fetch cancels the one before it in the same way.\<close>

lemma superseded_response_is_discarded:
  assumes "request < nextRequest (run R initialService before)"
  shows "run R initialService
           (before @ FetchEarthquakes filters t # after
              @ [HttpResponse request response nowCleanup now])
         = run R initialService (before @ FetchEarthquakes filters t # after)"
proof -
  let ?s = "run R initialService before"
  let ?t = "run R (fetchEarthquakes R filters t ?s) after"
  have "detachedBefore (nextRequest ?s) ?t"
    by (rule detachedBefore_run) (rule detachedBefore_fetch, simp)
  then have "httpResponse R request response nowCleanup now ?t = ?t"
    using assms by (rule detached_response_ignored)
  moreover have "run R initialService (before @ FetchEarthquakes filters t # after) = ?t"
    by (simp add: run_def)
  moreover have "run R initialService
           (before @ FetchEarthquakes filters t # after
              @ [HttpResponse request response nowCleanup now])
         = httpResponse R request response nowCleanup now ?t"
    by (simp add: run_def)
  ultimately show ?thesis by simp
qed


end
